theory Spec2Isabelle
  imports Main "HOL-Library.Word"
begin

unbundle bit_operations_syntax

section \<open>Data model\<close>

text \<open>
  Bytes are 8-bit words, the header fields of a frame are 16-bit words and the disk fields
  32-bit words, as in \<^verbatim>\<open>main.go\<close>. The gauges of the exporter form one datatype,
  one constructor per \<^verbatim>\<open>prometheus.NewGaugeVec\<close> of the source.
\<close>

type_synonym byte = "8 word"
type_synonym uint16 = "16 word"
type_synonym uint32 = "32 word"

datatype gauge =
    satellitesTracked
  | satellitesUsed
  | jammingStatus
  | receiverConnected
  | cpuLoad
  | temperature
  | uptime
  | diskFree
  | qualityOverall
  | qualitySignal
  | qualityRF

text \<open>
  One call \<^verbatim>\<open>g.WithLabelValues(station).Set(v)\<close>. The value is a float64 in the source.
  Every value the program stores is the conversion of an 8-bit or 32-bit integer, or such a
  32-bit integer times \<open>2 ^ 20\<close>; all of these are integers below \<open>2 ^ 53\<close> in magnitude, which
  float64 holds exactly (lemma \<open>parseBlock_values_exact\<close> below), so the value is an \<open>int\<close>.
\<close>

datatype sample = Sample gauge string int

fun sample_gauge :: "sample \<Rightarrow> gauge" where
  "sample_gauge (Sample g s v) = g"

fun sample_station :: "sample \<Rightarrow> string" where
  "sample_station (Sample g s v) = s"

fun sample_value :: "sample \<Rightarrow> int" where
  "sample_value (Sample g s v) = v"

record StationConfig =
  Name :: string
  Host :: string
  Port :: int

subsection \<open>Constants\<close>

definition SyncChar1 :: byte where
  "SyncChar1 = 0x24"

definition SyncChar2 :: byte where
  "SyncChar2 = 0x40"

definition BlockID_PVTGeodetic :: uint16 where
  "BlockID_PVTGeodetic = 4007"

definition BlockID_ReceiverStatus :: uint16 where
  "BlockID_ReceiverStatus = 4014"

definition BlockID_MeasEpoch :: uint16 where
  "BlockID_MeasEpoch = 4027"

definition BlockID_DiskStatus :: uint16 where
  "BlockID_DiskStatus = 4059"

definition BlockID_QualityInd :: uint16 where
  "BlockID_QualityInd = 4082"

definition BlockID_RFStatus :: uint16 where
  "BlockID_RFStatus = 4092"

subsection \<open>Slices and little-endian integers\<close>

text \<open>
  \<^verbatim>\<open>b[lo:hi]\<close> of Go. Every slice expression of the source stands under a length guard that
  keeps \<open>hi\<close> within the buffer, so the panic of an out-of-range slice is not reachable.
\<close>

definition subslice :: "'a list \<Rightarrow> nat \<Rightarrow> nat \<Rightarrow> 'a list" where
  "subslice b lo hi = take (hi - lo) (drop lo b)"

text \<open>\<^verbatim>\<open>binary.LittleEndian.Uint16\<close>: \<^verbatim>\<open>uint16(b[0]) | uint16(b[1])<<8\<close>.\<close>

definition LittleEndian_Uint16 :: "byte list \<Rightarrow> uint16" where
  "LittleEndian_Uint16 b = ucast (b ! 0) OR push_bit 8 (ucast (b ! 1))"

text \<open>\<^verbatim>\<open>binary.LittleEndian.Uint32\<close>:
  \<^verbatim>\<open>uint32(b[0]) | uint32(b[1])<<8 | uint32(b[2])<<16 | uint32(b[3])<<24\<close>.\<close>

definition LittleEndian_Uint32 :: "byte list \<Rightarrow> uint32" where
  "LittleEndian_Uint32 b =
     ucast (b ! 0) OR push_bit 8 (ucast (b ! 1)) OR push_bit 16 (ucast (b ! 2))
       OR push_bit 24 (ucast (b ! 3))"

section \<open>The record decoder: \<^verbatim>\<open>parseBlock\<close>\<close>

text \<open>
  \<^verbatim>\<open>parseBlock\<close> returns nothing; all it does is call \<^verbatim>\<open>Set\<close> on gauges. The model returns
  these calls in the order the source makes them. \<^verbatim>\<open>float64(x)\<close> of an unsigned value is
  \<open>uint\<close>, of the \<^verbatim>\<open>int8\<close> temperature \<open>sint\<close>. The subtraction of the disk fields is the
  subtraction of \<^verbatim>\<open>uint32\<close>, which wraps. The logger argument is never used. The
  parameter \<^verbatim>\<open>id\<close> is \<open>blockID\<close> here.
\<close>

definition parseBlock :: "string \<Rightarrow> uint16 \<Rightarrow> byte list \<Rightarrow> sample list" where
  "parseBlock stationName blockID payload =
    (if blockID = BlockID_PVTGeodetic then
       (if length payload > 66 then
          (let nrSv = payload ! 66
           in [Sample satellitesUsed stationName (uint nrSv)])
        else [])
     else if blockID = BlockID_MeasEpoch then
       (if length payload > 6 then
          (let n = payload ! 6
           in [Sample satellitesTracked stationName (uint n)])
        else [])
     else if blockID = BlockID_RFStatus then
       (if length payload > 8 then
          (let flags = payload ! 8;
               state0 = (0 :: int);
               state1 = (if flags AND 0x01 \<noteq> 0 then 1 else state0);
               state2 = (if flags AND 0x02 \<noteq> 0 then 2 else state1)
           in [Sample jammingStatus stationName state2])
        else [])
     else if blockID = BlockID_ReceiverStatus then
       (if length payload \<ge> 16 then
          (let cpu = payload ! 6;
               up = LittleEndian_Uint32 (subslice payload 7 11);
               temp = sint (payload ! 15)
           in [Sample cpuLoad stationName (uint cpu),
               Sample uptime stationName (uint up),
               Sample temperature stationName temp])
        else [])
     else if blockID = BlockID_QualityInd then
       (if length payload \<ge> 9 then
          (let qOver = payload ! 6;
               qSig = payload ! 7;
               qRF = payload ! 8
           in [Sample qualityOverall stationName (uint qOver),
               Sample qualitySignal stationName (uint qSig),
               Sample qualityRF stationName (uint qRF)])
        else [])
     else if blockID = BlockID_DiskStatus then
       (if length payload \<ge> 20 then
          (let capacityMB = LittleEndian_Uint32 (subslice payload 9 13);
               usedMB = LittleEndian_Uint32 (subslice payload 13 17);
               freeBytes = uint (capacityMB - usedMB) * 1024 * 1024
           in [Sample diskFree stationName freeBytes])
        else [])
     else [])"

section \<open>The frame scanner: \<^verbatim>\<open>handleStream\<close>\<close>

text \<open>
  The connection is the list of the bytes it delivers before it ends or fails; the
  \<^verbatim>\<open>bufio.Reader\<close> over it is the list of the bytes not yet read. \<^verbatim>\<open>ReadByte\<close> fails on
  the empty list. \<^verbatim>\<open>io.ReadFull\<close> fails when fewer bytes are left than the buffer holds,
  and succeeds without reading when the buffer is empty. Every failure makes \<^verbatim>\<open>handleStream\<close>
  return, so what a failed read leaves of the reader is never looked at.
\<close>

type_synonym reader = "byte list"

definition ReadByte :: "reader \<Rightarrow> (byte \<times> reader) option" where
  "ReadByte r = (case r of [] \<Rightarrow> None | b # r' \<Rightarrow> Some (b, r'))"

definition ReadFull :: "nat \<Rightarrow> reader \<Rightarrow> (byte list \<times> reader) option" where
  "ReadFull n r = (if length r < n then None else Some (take n r, drop n r))"

text \<open>
  One call \<^verbatim>\<open>parseBlock(stationName, baseID, payload, log)\<close> of the loop: the masked type
  identifier and the payload. \<open>f_length\<close> is the local \<^verbatim>\<open>length\<close> at the moment of the call
  (the length field of the header), kept so that properties can relate it to the payload.
\<close>

record frame =
  f_id :: uint16
  f_length :: uint16
  f_payload :: "byte list"

text \<open>
  The loop of \<^verbatim>\<open>handleStream\<close>, one unfolding per iteration; \<^verbatim>\<open>continue\<close> is the recursive
  call on the reader as it stands, \<^verbatim>\<open>return\<close> ends the list. \<^verbatim>\<open>headerBuf\<close> is zeroed by
  \<^verbatim>\<open>make\<close> and only \<^verbatim>\<open>headerBuf[2:]\<close> is ever written, so its first two bytes stay zero.
  The result is the sequence of \<^verbatim>\<open>parseBlock\<close> calls. \<^verbatim>\<open>payloadLen\<close> is an \<^verbatim>\<open>int\<close>.
\<close>

function handleStream_frames :: "reader \<Rightarrow> frame list" where
  "handleStream_frames reader =
    (case ReadByte reader of
       None \<Rightarrow> []
     | Some (b, r1) \<Rightarrow>
         if b \<noteq> SyncChar1 then handleStream_frames r1
         else
           (case ReadByte r1 of
              None \<Rightarrow> []
            | Some (b', r2) \<Rightarrow>
                if b' \<noteq> SyncChar2 then handleStream_frames r2
                else
                  (case ReadFull 6 r2 of
                     None \<Rightarrow> []
                   | Some (hdr, r3) \<Rightarrow>
                       (let headerBuf = [0, 0] @ hdr;
                            idRaw = LittleEndian_Uint16 (subslice headerBuf 4 6);
                            len = LittleEndian_Uint16 (subslice headerBuf 6 8);
                            baseID = idRaw AND 0x1FFF
                        in if len < 8 \<or> len > 8192 then handleStream_frames r3
                           else
                             (let payloadLen = uint len - 8
                              in case ReadFull (nat payloadLen) r3 of
                                   None \<Rightarrow> []
                                 | Some (payload, r4) \<Rightarrow>
                                     \<lparr>f_id = baseID, f_length = len, f_payload = payload\<rparr>
                                       # handleStream_frames r4)))))"
  by pat_completeness auto
termination
  by (relation "measure length")
     (auto simp: ReadByte_def ReadFull_def split: list.splits if_splits)

declare handleStream_frames.simps [simp del]

text \<open>
  \<^verbatim>\<open>handleStream(conn, stationName, log)\<close>: the gauge writes of the whole connection, which
  are those of its \<^verbatim>\<open>parseBlock\<close> calls, in order.
\<close>

definition handleStream :: "reader \<Rightarrow> string \<Rightarrow> sample list" where
  "handleStream conn stationName =
     concat (map (\<lambda>f. parseBlock stationName (f_id f) (f_payload f)) (handleStream_frames conn))"

text \<open>A marker in the stream: the two synchronization bytes at consecutive positions.\<close>

fun has_marker :: "byte list \<Rightarrow> bool" where
  "has_marker (a # b # r) = ((a = SyncChar1 \<and> b = SyncChar2) \<or> has_marker (b # r))"
| "has_marker _ = False"


text \<open>
  The positions of the checksum bytes, as the scanner meets them: \<open>checksum_mask\<close> walks
  the stream exactly as the loop of \<^verbatim>\<open>handleStream\<close> does and marks, for every header it
  reads in full, the two bytes that land in \<^verbatim>\<open>headerBuf[2:4]\<close>. The result has one entry per
  byte of the stream.
\<close>

function checksum_mask :: "reader \<Rightarrow> bool list" where
  "checksum_mask reader =
    (case ReadByte reader of
       None \<Rightarrow> []
     | Some (b, r1) \<Rightarrow>
         if b \<noteq> SyncChar1 then False # checksum_mask r1
         else
           (case ReadByte r1 of
              None \<Rightarrow> [False]
            | Some (b', r2) \<Rightarrow>
                if b' \<noteq> SyncChar2 then False # False # checksum_mask r2
                else
                  (case ReadFull 6 r2 of
                     None \<Rightarrow> False # False # replicate (length r2) False
                   | Some (hdr, r3) \<Rightarrow>
                       (let headerBuf = [0, 0] @ hdr;
                            len = LittleEndian_Uint16 (subslice headerBuf 6 8)
                        in [False, False, True, True, False, False, False, False] @
                           (if len < 8 \<or> len > 8192 then checksum_mask r3
                            else
                              (let payloadLen = uint len - 8
                               in case ReadFull (nat payloadLen) r3 of
                                    None \<Rightarrow> replicate (length r3) False
                                  | Some (payload, r4) \<Rightarrow>
                                      replicate (length payload) False @ checksum_mask r4))))))"
  by pat_completeness auto
termination
  by (relation "measure length")
     (auto simp: ReadByte_def ReadFull_def split: list.splits if_splits)

declare checksum_mask.simps [simp del]

text \<open>
  Two streams are identical except at the marked positions: same length, and the same byte
  wherever the mask is \<open>False\<close>.
\<close>

fun agree_off :: "bool list \<Rightarrow> byte list \<Rightarrow> byte list \<Rightarrow> bool" where
  "agree_off [] [] [] = True"
| "agree_off (m # ms) (x # xs) (y # ys) = ((m \<or> x = y) \<and> agree_off ms xs ys)"
| "agree_off _ _ _ = False"

subsection \<open>The decoder as claim C1 words it\<close>

text \<open>
  A decoder that guards every field on its own byte range, as claim C1 words it: CPU load
  needs 7 bytes, uptime 11, temperature 16; the quality fields 7, 8 and 9; the disk fields 17.
  It is written from the claim, not from the source, and serves only to compare.
\<close>

definition parseBlock_fieldwise :: "string \<Rightarrow> uint16 \<Rightarrow> byte list \<Rightarrow> sample list" where
  "parseBlock_fieldwise stationName blockID payload =
    (if blockID = BlockID_PVTGeodetic then
       (if 67 \<le> length payload then [Sample satellitesUsed stationName (uint (payload ! 66))]
        else [])
     else if blockID = BlockID_MeasEpoch then
       (if 7 \<le> length payload then [Sample satellitesTracked stationName (uint (payload ! 6))]
        else [])
     else if blockID = BlockID_RFStatus then
       (if 9 \<le> length payload
        then [Sample jammingStatus stationName
                (if bit (payload ! 8) 1 then 2 else if bit (payload ! 8) 0 then 1 else 0)]
        else [])
     else if blockID = BlockID_ReceiverStatus then
       (if 7 \<le> length payload then [Sample cpuLoad stationName (uint (payload ! 6))] else [])
       @ (if 11 \<le> length payload
          then [Sample uptime stationName (uint (LittleEndian_Uint32 (subslice payload 7 11)))]
          else [])
       @ (if 16 \<le> length payload then [Sample temperature stationName (sint (payload ! 15))]
          else [])
     else if blockID = BlockID_QualityInd then
       (if 7 \<le> length payload then [Sample qualityOverall stationName (uint (payload ! 6))]
        else [])
       @ (if 8 \<le> length payload then [Sample qualitySignal stationName (uint (payload ! 7))]
          else [])
       @ (if 9 \<le> length payload then [Sample qualityRF stationName (uint (payload ! 8))]
          else [])
     else if blockID = BlockID_DiskStatus then
       (if 17 \<le> length payload
        then [Sample diskFree stationName
                (uint (LittleEndian_Uint32 (subslice payload 9 13)
                         - LittleEndian_Uint32 (subslice payload 13 17)) * 1024 * 1024)]
        else [])
     else [])"

section \<open>The station supervisor: \<^verbatim>\<open>monitorStation\<close>\<close>

text \<open>
  What \<^verbatim>\<open>monitorStation\<close> does, as the sequence of its effects: gauge writes, calls of
  \<^verbatim>\<open>net.DialTimeout\<close> (with the timeout in seconds), log lines, sleeps (in seconds), the
  call of \<^verbatim>\<open>handleStream\<close> on a connection, and \<^verbatim>\<open>conn.Close\<close>.
\<close>

datatype event =
    SetGauge sample
  | DialTimeout nat
  | Printf string
  | Sleep nat
  | HandleStream reader
  | Close

text \<open>
  The network is an oracle: \<open>dial k\<close> is the outcome of the \<open>k\<close>-th call of
  \<^verbatim>\<open>net.DialTimeout\<close>, \<open>None\<close> for an error and otherwise the bytes the connection
  delivers. The \<^verbatim>\<open>for\<close> loop of the source has no \<^verbatim>\<open>break\<close> and no \<^verbatim>\<open>return\<close>, so it has
  no result; \<open>monitorStation dial s k n\<close> is the trace of \<open>n\<close> consecutive iterations of
  it, the first of which makes dial call number \<open>k\<close>. The address string and the prefix of
  the logger are left out.
\<close>

fun monitorStation :: "(nat \<Rightarrow> reader option) \<Rightarrow> StationConfig \<Rightarrow> nat \<Rightarrow> nat \<Rightarrow> event list" where
  "monitorStation dial s k 0 = []"
| "monitorStation dial s k (Suc n) =
     SetGauge (Sample receiverConnected (Name s) 0) # DialTimeout 5 #
     (case dial k of
        None \<Rightarrow>
          Printf ''Connection failed. Retrying in 10s...'' # Sleep 10 #
          monitorStation dial s (Suc k) n
      | Some conn \<Rightarrow>
          SetGauge (Sample receiverConnected (Name s) 1) #
          Printf (''Connected to '' @ Name s) #
          HandleStream conn # map SetGauge (handleStream conn (Name s)) @
          Close # Printf ''Connection lost. Reconnecting...'' # Sleep 5 #
          monitorStation dial s (Suc k) n)"

section \<open>Properties of the record decoder\<close>

lemmas BlockID_defs =
  BlockID_PVTGeodetic_def BlockID_ReceiverStatus_def BlockID_MeasEpoch_def
  BlockID_DiskStatus_def BlockID_QualityInd_def BlockID_RFStatus_def

subsection \<open>Little-endian decoding as arithmetic\<close>

lemma u8_bound: "uint (a :: byte) < 256" "0 \<le> uint a"
  using uint_bounded [of a] by simp_all

lemma uint_ucast16: "uint (ucast (a :: byte) :: uint16) = uint a"
  by (simp add: uint_up_ucast is_up)

lemma uint_ucast32: "uint (ucast (a :: byte) :: uint32) = uint a"
  by (simp add: uint_up_ucast is_up)

lemma LittleEndian_Uint16_value:
  "uint (LittleEndian_Uint16 [a, b]) = uint a + 256 * uint b"
proof -
  have "(ucast a :: uint16) OR push_bit 8 (ucast b) = ucast a + push_bit 8 (ucast b)"
    by (rule disjunctive_add [symmetric])
       (auto simp: bit_ucast_iff bit_push_bit_iff dest: bit_imp_le_length)
  then have "uint (LittleEndian_Uint16 [a, b]) = uint (ucast a + push_bit 8 (ucast b) :: uint16)"
    by (simp add: LittleEndian_Uint16_def)
  also have "\<dots> = (uint a + 256 * uint b) mod 2 ^ 16"
    by (simp add: uint_word_ariths uint_ucast16 push_bit_eq_mult mod_simps mult.commute)
  also have "\<dots> = uint a + 256 * uint b"
    using u8_bound [of a] u8_bound [of b] by simp
  finally show ?thesis .
qed

lemma LittleEndian_Uint32_value:
  "uint (LittleEndian_Uint32 [a, b, c, d]) =
     uint a + 256 * uint b + 65536 * uint c + 16777216 * uint d"
proof -
  define x0 :: uint32 where "x0 = ucast a"
  define x1 :: uint32 where "x1 = push_bit 8 (ucast b)"
  define x2 :: uint32 where "x2 = push_bit 16 (ucast c)"
  define x3 :: uint32 where "x3 = push_bit 24 (ucast d)"
  note x_defs = x0_def x1_def x2_def x3_def
  have 3: "x2 OR x3 = x2 + x3"
    by (rule disjunctive_add [symmetric])
       (auto simp: x_defs bit_ucast_iff bit_push_bit_iff dest: bit_imp_le_length)
  have 2: "x1 OR (x2 OR x3) = x1 + (x2 OR x3)"
    by (rule disjunctive_add [symmetric])
       (auto simp: x_defs bit_ucast_iff bit_push_bit_iff bit_or_iff dest: bit_imp_le_length)
  have 1: "x0 OR (x1 OR (x2 OR x3)) = x0 + (x1 OR (x2 OR x3))"
    by (rule disjunctive_add [symmetric])
       (auto simp: x_defs bit_ucast_iff bit_push_bit_iff bit_or_iff dest: bit_imp_le_length)
  have "LittleEndian_Uint32 [a, b, c, d] = x0 OR (x1 OR (x2 OR x3))"
    by (simp add: LittleEndian_Uint32_def x_defs)
  also have "\<dots> = x0 + (x1 OR (x2 OR x3))"
    by (rule 1)
  also have "\<dots> = x0 + (x1 + (x2 OR x3))"
    by (simp only: 2)
  also have "\<dots> = x0 + (x1 + (x2 + x3))"
    by (simp only: 3)
  finally have "uint (LittleEndian_Uint32 [a, b, c, d]) = uint (x0 + (x1 + (x2 + x3)))"
    by simp
  also have "\<dots> = (uint a + 256 * uint b + 65536 * uint c + 16777216 * uint d) mod 2 ^ 32"
    by (simp add: x_defs uint_word_ariths uint_ucast32 push_bit_eq_mult mod_simps
          mult.commute add.assoc)
  also have "\<dots> = uint a + 256 * uint b + 65536 * uint c + 16777216 * uint d"
    using u8_bound [of a] u8_bound [of b] u8_bound [of c] u8_bound [of d] by simp
  finally show ?thesis .
qed

text \<open>The four bytes of a slice that lies within the payload.\<close>

lemma LittleEndian_Uint32_subslice:
  "lo + 4 \<le> length p \<Longrightarrow>
   LittleEndian_Uint32 (subslice p lo (lo + 4)) =
     LittleEndian_Uint32 [p ! lo, p ! (lo + 1), p ! (lo + 2), p ! (lo + 3)]"
  by (simp add: LittleEndian_Uint32_def subslice_def)

lemma uint_field_at:
  assumes "lo + 4 \<le> length p"
  shows "uint (LittleEndian_Uint32 (subslice p lo (lo + 4))) =
           uint (p ! lo) + 256 * uint (p ! (lo + 1)) + 65536 * uint (p ! (lo + 2))
             + 16777216 * uint (p ! (lo + 3))"
  using assms by (simp only: LittleEndian_Uint32_subslice LittleEndian_Uint32_value)

subsection \<open>One equation per record type\<close>

lemma parseBlock_PVTGeodetic:
  "parseBlock st BlockID_PVTGeodetic p =
     (if 67 \<le> length p then [Sample satellitesUsed st (uint (p ! 66))] else [])"
  by (simp add: parseBlock_def BlockID_defs)

lemma parseBlock_MeasEpoch:
  "parseBlock st BlockID_MeasEpoch p =
     (if 7 \<le> length p then [Sample satellitesTracked st (uint (p ! 6))] else [])"
  by (simp add: parseBlock_def BlockID_defs)

lemma parseBlock_RFStatus:
  "parseBlock st BlockID_RFStatus p =
     (if 9 \<le> length p
      then [Sample jammingStatus st
              (if bit (p ! 8) 1 then 2 else if bit (p ! 8) 0 then 1 else 0)]
      else [])"
proof -
  have b0: "(p ! 8 AND 1 \<noteq> 0) = bit (p ! 8) 0"
    using and_exp_eq_0_iff_not_bit [of "p ! 8" 0] by simp
  have b1: "(p ! 8 AND 2 \<noteq> 0) = bit (p ! 8) 1"
    using and_exp_eq_0_iff_not_bit [of "p ! 8" 1] by simp
  show ?thesis
    by (simp add: parseBlock_def BlockID_defs Let_def b0 b1 del: bit_0)
qed

lemma parseBlock_ReceiverStatus:
  "parseBlock st BlockID_ReceiverStatus p =
     (if 16 \<le> length p
      then [Sample cpuLoad st (uint (p ! 6)),
            Sample uptime st (uint (LittleEndian_Uint32 (subslice p 7 11))),
            Sample temperature st (sint (p ! 15))]
      else [])"
  by (simp add: parseBlock_def BlockID_defs Let_def)

lemma parseBlock_QualityInd:
  "parseBlock st BlockID_QualityInd p =
     (if 9 \<le> length p
      then [Sample qualityOverall st (uint (p ! 6)),
            Sample qualitySignal st (uint (p ! 7)),
            Sample qualityRF st (uint (p ! 8))]
      else [])"
  by (simp add: parseBlock_def BlockID_defs Let_def)

lemma parseBlock_DiskStatus:
  "parseBlock st BlockID_DiskStatus p =
     (if 20 \<le> length p
      then [Sample diskFree st
              (uint (LittleEndian_Uint32 (subslice p 9 13) - LittleEndian_Uint32 (subslice p 13 17))
                 * 1024 * 1024)]
      else [])"
  by (simp add: parseBlock_def BlockID_defs Let_def)

lemma parseBlock_unknown:
  "blockID \<notin> {BlockID_PVTGeodetic, BlockID_MeasEpoch, BlockID_RFStatus,
      BlockID_ReceiverStatus, BlockID_QualityInd, BlockID_DiskStatus}
   \<Longrightarrow> parseBlock st blockID p = []"
  by (simp add: parseBlock_def)

subsection \<open>Every stored value is exact in float64\<close>

lemma parseBlock_cases:
  "parseBlock st blockID p = [] \<or>
   parseBlock st blockID p = [Sample satellitesUsed st (uint (p ! 66))] \<or>
   parseBlock st blockID p = [Sample satellitesTracked st (uint (p ! 6))] \<or>
   parseBlock st blockID p = [Sample jammingStatus st 0] \<or>
   parseBlock st blockID p = [Sample jammingStatus st 1] \<or>
   parseBlock st blockID p = [Sample jammingStatus st 2] \<or>
   parseBlock st blockID p =
     [Sample cpuLoad st (uint (p ! 6)),
      Sample uptime st (uint (LittleEndian_Uint32 (subslice p 7 11))),
      Sample temperature st (sint (p ! 15))] \<or>
   parseBlock st blockID p =
     [Sample qualityOverall st (uint (p ! 6)),
      Sample qualitySignal st (uint (p ! 7)),
      Sample qualityRF st (uint (p ! 8))] \<or>
   parseBlock st blockID p =
     [Sample diskFree st
        (uint (LittleEndian_Uint32 (subslice p 9 13) - LittleEndian_Uint32 (subslice p 13 17))
           * 1024 * 1024)]"
  unfolding parseBlock_def Let_def by presburger

lemma parseBlock_values_exact:
  "\<forall>s \<in> set (parseBlock st blockID p). \<bar>sample_value s\<bar> < 2 ^ 53"
proof -
  have u8: "\<bar>uint b\<bar> < 2 ^ 53" for b :: byte
    using uint_bounded [of b] by simp
  have s8: "\<bar>sint b\<bar> < 2 ^ 53" for b :: byte
    using sint_lt [of b] sint_ge [of b] by simp
  have u32: "\<bar>uint w\<bar> < 2 ^ 53" and u32m: "\<bar>uint w * 1024 * 1024\<bar> < 2 ^ 53" for w :: uint32
    using uint_bounded [of w] by simp_all
  show ?thesis
    using parseBlock_cases [of st blockID p] u8 s8 u32 u32m
    by (elim disjE) simp_all
qed

lemma parseBlock_station:
  "\<forall>s \<in> set (parseBlock st blockID p). sample_station s = st"
  using parseBlock_cases [of st blockID p] by (elim disjE) simp_all

section \<open>Claims about the record decoder\<close>

text \<open>
  Claim C1, as stated, fails. An 11-byte receiver-status payload carries CPU load 42 at
  offset 6 and uptime 100000 at offsets 7 to 10. The field-wise decoder of the claim yields
  both samples; \<^verbatim>\<open>parseBlock\<close> yields none, because its single guard asks for 16 bytes
  before it reads any field of the record.
\<close>

theorem C1_partial_decode_counterexample:
  "parseBlock_fieldwise ''rx'' BlockID_ReceiverStatus [0, 0, 0, 0, 0, 0, 42, 0xA0, 0x86, 0x01, 0]
     = [Sample cpuLoad ''rx'' 42, Sample uptime ''rx'' 100000]
   \<and> parseBlock ''rx'' BlockID_ReceiverStatus [0, 0, 0, 0, 0, 0, 42, 0xA0, 0x86, 0x01, 0] = []"
  by (simp add: parseBlock_fieldwise_def parseBlock_def BlockID_defs LittleEndian_Uint32_def
        subslice_def)

text \<open>
  Claim C1, amended: the decoder guards each record type with one minimum length (67 bytes
  for satellite fix, 7 for measurement epoch, 9 for RF status, 16 for receiver status, 9 for
  quality indicators, 20 for disk status). A payload that meets the minimum of its type
  yields every sample of the type, a shorter one yields none. In particular a
  receiver-status payload of at least 11 and fewer than 16 bytes yields no sample at all:
  CPU load and uptime are skipped together with the temperature.
\<close>

theorem C1_guard_per_record:
  "map sample_gauge (parseBlock st BlockID_PVTGeodetic p)
     = (if 67 \<le> length p then [satellitesUsed] else [])
   \<and> map sample_gauge (parseBlock st BlockID_MeasEpoch p)
     = (if 7 \<le> length p then [satellitesTracked] else [])
   \<and> map sample_gauge (parseBlock st BlockID_RFStatus p)
     = (if 9 \<le> length p then [jammingStatus] else [])
   \<and> map sample_gauge (parseBlock st BlockID_ReceiverStatus p)
     = (if 16 \<le> length p then [cpuLoad, uptime, temperature] else [])
   \<and> map sample_gauge (parseBlock st BlockID_QualityInd p)
     = (if 9 \<le> length p then [qualityOverall, qualitySignal, qualityRF] else [])
   \<and> map sample_gauge (parseBlock st BlockID_DiskStatus p)
     = (if 20 \<le> length p then [diskFree] else [])
   \<and> (11 \<le> length p \<and> length p < 16 \<longrightarrow> parseBlock st BlockID_ReceiverStatus p = [])"
proof -
  have a: "map sample_gauge (parseBlock st BlockID_PVTGeodetic p)
     = (if 67 \<le> length p then [satellitesUsed] else [])"
    by (simp add: parseBlock_PVTGeodetic)
  have b: "map sample_gauge (parseBlock st BlockID_MeasEpoch p)
     = (if 7 \<le> length p then [satellitesTracked] else [])"
    by (simp add: parseBlock_MeasEpoch)
  have c: "map sample_gauge (parseBlock st BlockID_RFStatus p)
     = (if 9 \<le> length p then [jammingStatus] else [])"
    by (simp add: parseBlock_RFStatus del: bit_0)
  have d: "map sample_gauge (parseBlock st BlockID_ReceiverStatus p)
     = (if 16 \<le> length p then [cpuLoad, uptime, temperature] else [])"
    by (simp add: parseBlock_ReceiverStatus)
  have e: "map sample_gauge (parseBlock st BlockID_QualityInd p)
     = (if 9 \<le> length p then [qualityOverall, qualitySignal, qualityRF] else [])"
    by (simp add: parseBlock_QualityInd)
  have f: "map sample_gauge (parseBlock st BlockID_DiskStatus p)
     = (if 20 \<le> length p then [diskFree] else [])"
    by (simp add: parseBlock_DiskStatus)
  have g: "11 \<le> length p \<and> length p < 16 \<longrightarrow> parseBlock st BlockID_ReceiverStatus p = []"
    by (simp add: parseBlock_ReceiverStatus)
  from a b c d e f g show ?thesis
    by (intro conjI)
qed

theorem C1_guard_per_record_witness:
  "(11::nat) \<le> length [0, 0, 0, 0, 0, 0, 42, 0xA0, 0x86, 0x01, 0 :: byte]
   \<and> length [0, 0, 0, 0, 0, 0, 42, 0xA0, 0x86, 0x01, 0 :: byte] < 16
   \<and> parseBlock ''rx'' BlockID_ReceiverStatus [0, 0, 0, 0, 0, 0, 42, 0xA0, 0x86, 0x01, 0] = []
   \<and> map sample_gauge (parseBlock ''rx'' BlockID_QualityInd [0, 0, 0, 0, 0, 0, 42, 0xA0, 0x86, 0x01, 0])
       = [qualityOverall, qualitySignal, qualityRF]"
  using C1_guard_per_record [of "''rx''" "[0, 0, 0, 0, 0, 0, 42, 0xA0, 0x86, 0x01, 0]"]
  by simp

text \<open>
  Claim C4: for an RF-status payload of at least 9 bytes the jamming state is 2 when bit 1 of
  the byte at offset 8 is set (whatever bit 0 is), else 1 when bit 0 is set, else 0; with the
  byte equal to 3 the state is 2.
\<close>

theorem C4_jamming_state:
  assumes "9 \<le> length p"
  shows "parseBlock st BlockID_RFStatus p =
           [Sample jammingStatus st
              (if bit (p ! 8) 1 then 2 else if bit (p ! 8) 0 then 1 else 0)]
         \<and> (p ! 8 = 0x03 \<longrightarrow> parseBlock st BlockID_RFStatus p = [Sample jammingStatus st 2])"
proof -
  have "bit (3 :: byte) 1"
    by (simp add: bit_iff_odd)
  with assms show ?thesis
    by (simp add: parseBlock_RFStatus del: bit_0)
qed

theorem C4_jamming_state_witness:
  "(9::nat) \<le> length [0, 0, 0, 0, 0, 0, 0, 0, 3 :: byte]
   \<and> [0, 0, 0, 0, 0, 0, 0, 0, 3 :: byte] ! 8 = 0x03
   \<and> parseBlock ''rx'' BlockID_RFStatus [0, 0, 0, 0, 0, 0, 0, 0, 3] = [Sample jammingStatus ''rx'' 2]"
  using C4_jamming_state [of "[0, 0, 0, 0, 0, 0, 0, 0, 3]" "''rx''"]
  by simp

text \<open>
  Claim C5: a receiver-status payload of at least 16 bytes with the byte 42 at offset 6, the
  little-endian 32-bit value 100000 at offsets 7 to 10 and the signed byte -5 (the byte
  \<open>0xFB\<close>) at offset 15 decodes to exactly CPU load 42, uptime 100000 and temperature -5,
  all for the station given.
\<close>

theorem C5_receiver_status_roundtrip:
  assumes "16 \<le> length p"
    and "p ! 6 = 42"
    and "uint (p ! 7) + 256 * uint (p ! 8) + 65536 * uint (p ! 9) + 16777216 * uint (p ! 10)
           = 100000"
    and "p ! 15 = 0xFB"
  shows "parseBlock st BlockID_ReceiverStatus p =
           [Sample cpuLoad st 42, Sample uptime st 100000, Sample temperature st (- 5)]"
proof -
  have "uint (LittleEndian_Uint32 (subslice p 7 11)) = 100000"
    using uint_field_at [of 7 p] assms(1,3) by simp
  with assms(1,2,4) show ?thesis
    by (simp add: parseBlock_ReceiverStatus)
qed

theorem C5_receiver_status_roundtrip_witness:
  "parseBlock ''rx'' BlockID_ReceiverStatus
     [0, 0, 0, 0, 0, 0, 42, 0xA0, 0x86, 0x01, 0x00, 0, 0, 0, 0, 0xFB] =
     [Sample cpuLoad ''rx'' 42, Sample uptime ''rx'' 100000, Sample temperature ''rx'' (- 5)]"
  using C5_receiver_status_roundtrip
    [of "[0, 0, 0, 0, 0, 0, 42, 0xA0, 0x86, 0x01, 0x00, 0, 0, 0, 0, 0xFB]" "''rx''"]
  by simp

text \<open>
  Claim C6: for a disk-status payload of at least 20 bytes the free-space sample is
  (capacity - used) * 1024 * 1024, capacity and used being the unsigned 32-bit
  little-endian values at offsets 9 and 13. The difference is the one of the source, taken
  on 32-bit unsigned values; whenever used does not exceed capacity it is the difference of
  the two numbers. With capacity 1000 and used 400 the sample is 600 * 1024 * 1024.
\<close>

theorem C6_disk_free:
  fixes p :: "byte list"
  defines "capacity \<equiv> LittleEndian_Uint32 (subslice p 9 13)"
    and "used \<equiv> LittleEndian_Uint32 (subslice p 13 17)"
  assumes "20 \<le> length p"
  shows "parseBlock st BlockID_DiskStatus p
           = [Sample diskFree st (uint (capacity - used) * 1024 * 1024)]
         \<and> (uint used \<le> uint capacity \<longrightarrow>
              parseBlock st BlockID_DiskStatus p
                = [Sample diskFree st ((uint capacity - uint used) * 1024 * 1024)])
         \<and> (uint capacity = 1000 \<and> uint used = 400 \<longrightarrow>
              parseBlock st BlockID_DiskStatus p = [Sample diskFree st (600 * 1024 * 1024)])
         \<and> uint capacity = uint (p ! 9) + 256 * uint (p ! 10) + 65536 * uint (p ! 11)
              + 16777216 * uint (p ! 12)
         \<and> uint used = uint (p ! 13) + 256 * uint (p ! 14) + 65536 * uint (p ! 15)
              + 16777216 * uint (p ! 16)"
proof -
  have dec: "parseBlock st BlockID_DiskStatus p
      = [Sample diskFree st (uint (capacity - used) * 1024 * 1024)]"
    using assms(3) by (simp add: parseBlock_DiskStatus capacity_def used_def)
  have sub: "uint (capacity - used) = uint capacity - uint used" if "uint used \<le> uint capacity"
    using that by (simp add: uint_sub_lem)
  have cap: "uint capacity = uint (p ! 9) + 256 * uint (p ! 10) + 65536 * uint (p ! 11)
      + 16777216 * uint (p ! 12)"
    unfolding capacity_def using uint_field_at [of 9 p] assms(3) by simp
  have use: "uint used = uint (p ! 13) + 256 * uint (p ! 14) + 65536 * uint (p ! 15)
      + 16777216 * uint (p ! 16)"
    unfolding used_def using uint_field_at [of 13 p] assms(3) by simp
  have le: "parseBlock st BlockID_DiskStatus p
        = [Sample diskFree st ((uint capacity - uint used) * 1024 * 1024)]"
    if "uint used \<le> uint capacity"
    using dec sub [OF that] by simp
  have ex: "parseBlock st BlockID_DiskStatus p = [Sample diskFree st (600 * 1024 * 1024)]"
    if "uint capacity = 1000 \<and> uint used = 400"
    using le that by simp
  from dec le ex cap use show ?thesis
    by (intro conjI impI)
qed

theorem C6_disk_free_witness:
  "parseBlock ''rx'' BlockID_DiskStatus
     [0, 0, 0, 0, 0, 0, 1, 0, 1, 0xE8, 0x03, 0, 0, 0x90, 0x01, 0, 0, 0, 0, 0]
     = [Sample diskFree ''rx'' (600 * 1024 * 1024)]"
  using C6_disk_free
    [of "[0, 0, 0, 0, 0, 0, 1, 0, 1, 0xE8, 0x03, 0, 0, 0x90, 0x01, 0, 0, 0, 0, 0]" "''rx''"]
  by (simp add: LittleEndian_Uint32_def subslice_def)

text \<open>
  Claim C10: the subtraction capacity - used is done on unsigned 32-bit values. For a
  disk-status payload of at least 20 bytes whose used field exceeds its capacity field the
  difference wraps: the sample is ((capacity - used) mod 2^32) * 1024 * 1024, that is
  (2^32 - (used - capacity)) * 1024 * 1024, which is positive (at least 1024 * 1024), never
  zero or negative.
\<close>

theorem C10_disk_free_wraps:
  fixes p :: "byte list"
  defines "capacity \<equiv> LittleEndian_Uint32 (subslice p 9 13)"
    and "used \<equiv> LittleEndian_Uint32 (subslice p 13 17)"
  assumes "20 \<le> length p" and "uint capacity < uint used"
  shows "parseBlock st BlockID_DiskStatus p =
           [Sample diskFree st (((uint capacity - uint used) mod 2 ^ 32) * 1024 * 1024)]
         \<and> (uint capacity - uint used) mod 2 ^ 32 = 2 ^ 32 - (uint used - uint capacity)
         \<and> 1024 * 1024 \<le> ((uint capacity - uint used) mod 2 ^ 32) * 1024 * 1024"
proof -
  have bounds: "uint used < 2 ^ 32" "0 \<le> uint capacity"
    using uint_bounded [of used] by simp_all
  have "(uint capacity - uint used) mod 2 ^ 32 = (uint capacity - uint used + 2 ^ 32) mod 2 ^ 32"
    by simp
  also have "\<dots> = uint capacity - uint used + 2 ^ 32"
  proof (rule mod_pos_pos_trivial)
    show "0 \<le> uint capacity - uint used + 2 ^ 32"
      using bounds by linarith
    show "uint capacity - uint used + 2 ^ 32 < 2 ^ 32"
      using assms(4) by linarith
  qed
  finally have wrap:
    "(uint capacity - uint used) mod 2 ^ 32 = 2 ^ 32 - (uint used - uint capacity)"
    by simp
  have pos: "1 \<le> (uint capacity - uint used) mod 2 ^ 32"
    unfolding wrap using bounds by linarith
  have dec: "parseBlock st BlockID_DiskStatus p =
      [Sample diskFree st (((uint capacity - uint used) mod 2 ^ 32) * 1024 * 1024)]"
    using assms(3) by (simp add: parseBlock_DiskStatus uint_word_ariths capacity_def used_def)
  from pos have "1024 * 1024 \<le> ((uint capacity - uint used) mod 2 ^ 32) * 1024 * 1024"
    by linarith
  with dec wrap show ?thesis
    by (intro conjI)
qed

theorem C10_disk_free_wraps_witness:
  "parseBlock ''rx'' BlockID_DiskStatus
     [0, 0, 0, 0, 0, 0, 1, 0, 1, 0, 0, 0, 0, 1, 0, 0, 0, 0, 0, 0]
     = [Sample diskFree ''rx'' (4294967295 * 1024 * 1024)]"
  using C10_disk_free_wraps
    [of "[0, 0, 0, 0, 0, 0, 1, 0, 1, 0, 0, 0, 0, 1, 0, 0, 0, 0, 0, 0]" "''rx''"]
  by (simp add: LittleEndian_Uint32_def subslice_def)

section \<open>Properties of the frame scanner\<close>

subsection \<open>The loop, one case per path through its body\<close>

lemma handleStream_frames_Nil: "handleStream_frames [] = []"
  by (simp add: handleStream_frames.simps ReadByte_def)

lemma handleStream_frames_skip:
  "b \<noteq> SyncChar1 \<Longrightarrow> handleStream_frames (b # r) = handleStream_frames r"
  by (subst handleStream_frames.simps) (simp add: ReadByte_def)

lemma handleStream_frames_sync1_eof: "handleStream_frames [SyncChar1] = []"
  by (subst handleStream_frames.simps) (simp add: ReadByte_def)

lemma handleStream_frames_resync:
  "b \<noteq> SyncChar2 \<Longrightarrow> handleStream_frames (SyncChar1 # b # r) = handleStream_frames r"
  by (subst handleStream_frames.simps) (simp add: ReadByte_def)

lemma handleStream_frames_short_header:
  "length r < 6 \<Longrightarrow> handleStream_frames (SyncChar1 # SyncChar2 # r) = []"
  by (subst handleStream_frames.simps) (simp add: ReadByte_def ReadFull_def)

lemma header_fields:
  "LittleEndian_Uint16 (subslice ([0, 0] @ take 6 (c1 # c2 # i1 # i2 # l1 # l2 # r)) 4 6)
     = LittleEndian_Uint16 [i1, i2]"
  "LittleEndian_Uint16 (subslice ([0, 0] @ take 6 (c1 # c2 # i1 # i2 # l1 # l2 # r)) 6 8)
     = LittleEndian_Uint16 [l1, l2]"
  by (simp_all add: LittleEndian_Uint16_def subslice_def)

lemma handleStream_frames_header:
  "handleStream_frames (SyncChar1 # SyncChar2 # c1 # c2 # i1 # i2 # l1 # l2 # r) =
     (if LittleEndian_Uint16 [l1, l2] < 8 \<or> LittleEndian_Uint16 [l1, l2] > 8192
      then handleStream_frames r
      else if length r < nat (uint (LittleEndian_Uint16 [l1, l2]) - 8) then []
      else \<lparr>f_id = LittleEndian_Uint16 [i1, i2] AND 0x1FFF,
            f_length = LittleEndian_Uint16 [l1, l2],
            f_payload = take (nat (uint (LittleEndian_Uint16 [l1, l2]) - 8)) r\<rparr>
           # handleStream_frames (drop (nat (uint (LittleEndian_Uint16 [l1, l2]) - 8)) r))"
proof -
  have rf: "ReadFull 6 (c1 # c2 # i1 # i2 # l1 # l2 # r)
      = Some (take 6 (c1 # c2 # i1 # i2 # l1 # l2 # r), r)"
    by (simp add: ReadFull_def)
  show ?thesis
    by (subst handleStream_frames.simps)
       (simp only: ReadByte_def list.case option.case prod.case rf header_fields Let_def
          ReadFull_def if_True if_False not_not refl split: if_splits, simp)
qed

subsection \<open>Induction along the scan\<close>

lemma six_bytes:
  "6 \<le> length (xs :: byte list) \<Longrightarrow> \<exists>a b c d e f r. xs = a # b # c # d # e # f # r"
  by (auto simp: numeral_eq_Suc Suc_le_length_iff)

lemma scan_induct [case_names eof skip sync1_eof resync short_header bad_length short_payload frame]:
  assumes eof: "P []"
    and skip: "\<And>b r. b \<noteq> SyncChar1 \<Longrightarrow> P r \<Longrightarrow> P (b # r)"
    and sync1_eof: "P [SyncChar1]"
    and resync: "\<And>b r. b \<noteq> SyncChar2 \<Longrightarrow> P r \<Longrightarrow> P (SyncChar1 # b # r)"
    and short_header: "\<And>r. length r < 6 \<Longrightarrow> P (SyncChar1 # SyncChar2 # r)"
    and bad_length: "\<And>c1 c2 i1 i2 l1 l2 r.
          LittleEndian_Uint16 [l1, l2] < 8 \<or> LittleEndian_Uint16 [l1, l2] > 8192 \<Longrightarrow> P r
          \<Longrightarrow> P (SyncChar1 # SyncChar2 # c1 # c2 # i1 # i2 # l1 # l2 # r)"
    and short_payload: "\<And>c1 c2 i1 i2 l1 l2 r.
          \<not> (LittleEndian_Uint16 [l1, l2] < 8 \<or> LittleEndian_Uint16 [l1, l2] > 8192)
          \<Longrightarrow> length r < nat (uint (LittleEndian_Uint16 [l1, l2]) - 8)
          \<Longrightarrow> P (SyncChar1 # SyncChar2 # c1 # c2 # i1 # i2 # l1 # l2 # r)"
    and frame: "\<And>c1 c2 i1 i2 l1 l2 r.
          \<not> (LittleEndian_Uint16 [l1, l2] < 8 \<or> LittleEndian_Uint16 [l1, l2] > 8192)
          \<Longrightarrow> nat (uint (LittleEndian_Uint16 [l1, l2]) - 8) \<le> length r
          \<Longrightarrow> P (drop (nat (uint (LittleEndian_Uint16 [l1, l2]) - 8)) r)
          \<Longrightarrow> P (SyncChar1 # SyncChar2 # c1 # c2 # i1 # i2 # l1 # l2 # r)"
  shows "P xs"
proof (induction xs rule: length_induct)
  case (1 xs)
  then have IH: "P ys" if "length ys < length xs" for ys
    using that by blast
  show ?case
  proof (cases xs)
    case Nil
    then show ?thesis using eof by simp
  next
    case (Cons b r)
    show ?thesis
    proof (cases "b = SyncChar1")
      case False
      then show ?thesis using skip [of b r] IH [of r] Cons by simp
    next
      case True
      note b = this
      show ?thesis
      proof (cases r)
        case Nil
        then show ?thesis using sync1_eof Cons b by simp
      next
        case (Cons b' r2)
        note r = this
        show ?thesis
        proof (cases "b' = SyncChar2")
          case False
          then show ?thesis using resync [of b' r2] IH [of r2] \<open>xs = b # r\<close> b r by simp
        next
          case True
          note b' = this
          have xs: "xs = SyncChar1 # SyncChar2 # r2"
            using \<open>xs = b # r\<close> b r b' by simp
          show ?thesis
          proof (cases "length r2 < 6")
            case True
            then show ?thesis using short_header [of r2] xs by simp
          next
            case False
            then obtain c1 c2 i1 i2 l1 l2 r3 where r2: "r2 = c1 # c2 # i1 # i2 # l1 # l2 # r3"
              using six_bytes [of r2] by auto
            let ?len = "LittleEndian_Uint16 [l1, l2]"
            let ?n = "nat (uint ?len - 8)"
            show ?thesis
            proof (cases "?len < 8 \<or> ?len > 8192")
              case True
              then show ?thesis
                using bad_length [of l1 l2 r3 c1 c2 i1 i2] IH [of r3] xs r2 by simp
            next
              case False
              note valid = this
              show ?thesis
              proof (cases "length r3 < ?n")
                case True
                then show ?thesis
                  using short_payload [OF valid, of r3 c1 c2 i1 i2] xs r2 by simp
              next
                case False
                then have "?n \<le> length r3" by simp
                moreover have "P (drop ?n r3)"
                  using IH [of "drop ?n r3"] xs r2 by simp
                ultimately show ?thesis
                  using frame [OF valid, of r3 c1 c2 i1 i2] xs r2 by simp
              qed
            qed
          qed
        qed
      qed
    qed
  qed
qed

subsection \<open>Streams without a marker\<close>

lemma handleStream_frames_no_marker:
  "\<not> has_marker xs \<Longrightarrow> handleStream_frames xs = []"
proof (induction xs rule: scan_induct)
  case eof
  show ?case by (rule handleStream_frames_Nil)
next
  case (skip b r)
  then show ?case
    by (cases r) (simp_all add: handleStream_frames_skip)
next
  case sync1_eof
  show ?case by (rule handleStream_frames_sync1_eof)
next
  case (resync b r)
  then show ?case
    by (cases r) (simp_all add: handleStream_frames_resync)
qed simp_all

subsection \<open>Every call of the decoder\<close>

lemma handleStream_frames_payload_length:
  "\<forall>f \<in> set (handleStream_frames xs).
     8 \<le> f_length f \<and> f_length f \<le> 8192 \<and> int (length (f_payload f)) = uint (f_length f) - 8"
proof (induction xs rule: scan_induct)
  case (frame c1 c2 i1 i2 l1 l2 r)
  let ?len = "LittleEndian_Uint16 [l1, l2]"
  from frame(1) have "8 \<le> ?len" "?len \<le> 8192"
    by (simp_all add: not_less)
  moreover from \<open>8 \<le> ?len\<close> have "8 \<le> uint ?len"
    by (simp add: word_le_def)
  ultimately show ?case
    using frame by (simp add: handleStream_frames_header)
qed (simp_all add: handleStream_frames_Nil handleStream_frames_skip handleStream_frames_sync1_eof
       handleStream_frames_resync handleStream_frames_short_header handleStream_frames_header)

section \<open>Claims about the frame scanner\<close>

lemmas scan_simps =
  handleStream_frames_Nil handleStream_frames_skip handleStream_frames_sync1_eof
  handleStream_frames_resync handleStream_frames_short_header handleStream_frames_header

lemmas Sync_defs = SyncChar1_def SyncChar2_def

lemmas scan_eval = scan_simps [unfolded Sync_defs]

text \<open>
  Claim C2: every frame the scanner hands to the decoder has a length field between 8 and
  8192 and a payload of exactly length - 8 bytes. And every header with such a length
  field whose payload arrives in full is handed on, with the \<open>length - 8\<close> bytes that
  follow the header as its payload; the scan goes on behind them.
\<close>

theorem C2_payload_length:
  "(\<forall>f \<in> set (handleStream_frames xs).
      8 \<le> f_length f \<and> f_length f \<le> 8192
      \<and> int (length (f_payload f)) = uint (f_length f) - 8)
   \<and> (8 \<le> LittleEndian_Uint16 [lna, lnb] \<and> LittleEndian_Uint16 [lna, lnb] \<le> 8192
        \<and> nat (uint (LittleEndian_Uint16 [lna, lnb]) - 8) \<le> length r \<longrightarrow>
      handleStream_frames (SyncChar1 # SyncChar2 # cka # ckb # ida # idb # lna # lnb # r) =
        \<lparr>f_id = LittleEndian_Uint16 [ida, idb] AND 0x1FFF,
         f_length = LittleEndian_Uint16 [lna, lnb],
         f_payload = take (nat (uint (LittleEndian_Uint16 [lna, lnb]) - 8)) r\<rparr>
        # handleStream_frames (drop (nat (uint (LittleEndian_Uint16 [lna, lnb]) - 8)) r)
      \<and> int (length (take (nat (uint (LittleEndian_Uint16 [lna, lnb]) - 8)) r))
          = uint (LittleEndian_Uint16 [lna, lnb]) - 8)"
proof (intro conjI impI)
  show "\<forall>f \<in> set (handleStream_frames xs).
      8 \<le> f_length f \<and> f_length f \<le> 8192
      \<and> int (length (f_payload f)) = uint (f_length f) - 8"
    by (rule handleStream_frames_payload_length)
next
  let ?len = "LittleEndian_Uint16 [lna, lnb]"
  assume a: "8 \<le> ?len \<and> ?len \<le> 8192 \<and> nat (uint ?len - 8) \<le> length r"
  then have valid: "\<not> (?len < 8 \<or> ?len > 8192)"
    by (simp add: not_less)
  from a have "8 \<le> uint ?len"
    by (simp add: word_le_def)
  with a show "int (length (take (nat (uint ?len - 8)) r)) = uint ?len - 8"
    by simp
  from a valid
  show "handleStream_frames (SyncChar1 # SyncChar2 # cka # ckb # ida # idb # lna # lnb # r) =
        \<lparr>f_id = LittleEndian_Uint16 [ida, idb] AND 0x1FFF, f_length = ?len,
         f_payload = take (nat (uint ?len - 8)) r\<rparr>
        # handleStream_frames (drop (nat (uint ?len - 8)) r)"
    by (simp add: handleStream_frames_header)
qed

theorem C2_payload_length_witness:
  "handleStream_frames [0x24, 0x40, 0xAA, 0xBB, 0xAE, 0x4F, 0x0A, 0x00, 1, 2, 9]
     = [\<lparr>f_id = 4014, f_length = 10, f_payload = [1, 2]\<rparr>]
   \<and> int (length [1, 2 :: byte]) = uint (10 :: uint16) - 8"
  using C2_payload_length
    [where xs = "[0x24, 0x40, 0xAA, 0xBB, 0xAE, 0x4F, 0x0A, 0x00, 1, 2, 9]"
       and cka = "0xAA" and ckb = "0xBB" and ida = "0xAE" and idb = "0x4F"
       and lna = "0x0A" and lnb = "0x00" and r = "[1, 2, 9]"]
  by (simp add: Sync_defs LittleEndian_Uint16_def scan_eval)

text \<open>
  Claim C3: a header whose length field is below 8 or above 8192 yields no frame; no
  payload byte is read or skipped, and the scan goes on at the byte right after the eight
  bytes of the header. The loop is a total function, so nothing fails on the way.
\<close>

theorem C3_invalid_length:
  assumes "LittleEndian_Uint16 [lna, lnb] < 8 \<or> LittleEndian_Uint16 [lna, lnb] > 8192"
  shows "handleStream_frames (SyncChar1 # SyncChar2 # cka # ckb # ida # idb # lna # lnb # r)
           = handleStream_frames r
         \<and> handleStream (SyncChar1 # SyncChar2 # cka # ckb # ida # idb # lna # lnb # r) st
           = handleStream r st"
  using assms by (simp add: handleStream_def handleStream_frames_header)

theorem C3_invalid_length_witness:
  "handleStream_frames
     ([0x24, 0x40, 0, 0, 0xAE, 0x0F, 4, 0] @ [0x24, 0x40, 0, 0, 0xAE, 0x0F, 8, 0])
     = [\<lparr>f_id = 4014, f_length = 8, f_payload = []\<rparr>]
   \<and> handleStream_frames
     ([0x24, 0x40, 0, 0, 0xAE, 0x0F, 0xFF, 0xFF] @ [0x24, 0x40, 0, 0, 0xAE, 0x0F, 8, 0])
     = [\<lparr>f_id = 4014, f_length = 8, f_payload = []\<rparr>]"
  using C3_invalid_length
      [where lna = 4 and lnb = 0 and cka = 0 and ckb = 0 and ida = "0xAE" and idb = "0x0F"
         and r = "[0x24, 0x40, 0, 0, 0xAE, 0x0F, 8, 0]" and st = "''rx''"]
    C3_invalid_length
      [where lna = "0xFF" and lnb = "0xFF" and cka = 0 and ckb = 0 and ida = "0xAE"
         and idb = "0x0F" and r = "[0x24, 0x40, 0, 0, 0xAE, 0x0F, 8, 0]" and st = "''rx''"]
  by (simp add: Sync_defs LittleEndian_Uint16_def scan_eval)

text \<open>
  Claim C7: when the byte after a first marker byte is not the second marker byte, the scan
  goes on at the byte after it; the failed byte is consumed and never tried as a first
  marker byte. So in a stream whose only marker starts at such a failed byte (a first
  marker byte, then the marker, then bytes holding no marker) no frame is emitted.
\<close>

theorem C7_resync_gap:
  "(b \<noteq> SyncChar2 \<longrightarrow> handleStream_frames (SyncChar1 # b # r) = handleStream_frames r)
   \<and> (\<not> has_marker r \<longrightarrow>
        has_marker (SyncChar1 # SyncChar1 # SyncChar2 # r)
        \<and> handleStream_frames (SyncChar1 # SyncChar1 # SyncChar2 # r) = [])"
proof (intro conjI impI)
  assume "b \<noteq> SyncChar2"
  then show "handleStream_frames (SyncChar1 # b # r) = handleStream_frames r"
    by (rule handleStream_frames_resync)
next
  assume "\<not> has_marker r"
  show "has_marker (SyncChar1 # SyncChar1 # SyncChar2 # r)"
    by simp
next
  assume nm: "\<not> has_marker r"
  have ne: "SyncChar1 \<noteq> SyncChar2" "SyncChar2 \<noteq> SyncChar1"
    by (simp_all add: Sync_defs)
  have "handleStream_frames (SyncChar1 # SyncChar1 # SyncChar2 # r)
      = handleStream_frames (SyncChar2 # r)"
    using ne by (simp add: handleStream_frames_resync)
  also have "\<dots> = handleStream_frames r"
    using ne by (simp add: handleStream_frames_skip)
  also have "\<dots> = []"
    using nm by (rule handleStream_frames_no_marker)
  finally show "handleStream_frames (SyncChar1 # SyncChar1 # SyncChar2 # r) = []" .
qed

theorem C7_resync_gap_witness:
  "(0x24 :: byte) \<noteq> SyncChar2
   \<and> \<not> has_marker [0, 0, 0xAE, 0x0F, 8, 0]
   \<and> handleStream_frames [0x24, 0x24, 0x40, 0, 0, 0xAE, 0x0F, 8, 0] = []
   \<and> handleStream_frames [0x24, 0x40, 0, 0, 0xAE, 0x0F, 8, 0]
       = [\<lparr>f_id = 4014, f_length = 8, f_payload = []\<rparr>]"
  using C7_resync_gap [where b = "0x24" and r = "[0x40, 0, 0, 0xAE, 0x0F, 8, 0]"]
    C7_resync_gap [where b = "0x24" and r = "[0, 0, 0xAE, 0x0F, 8, 0]"]
  by (simp add: Sync_defs LittleEndian_Uint16_def scan_eval)

section \<open>The checksum bytes do not interfere\<close>

subsection \<open>The mask, one case per path through the loop\<close>

lemma checksum_mask_Nil: "checksum_mask [] = []"
  by (simp add: checksum_mask.simps ReadByte_def)

lemma checksum_mask_skip:
  "b \<noteq> SyncChar1 \<Longrightarrow> checksum_mask (b # r) = False # checksum_mask r"
  by (subst checksum_mask.simps) (simp add: ReadByte_def)

lemma checksum_mask_sync1_eof: "checksum_mask [SyncChar1] = [False]"
  by (subst checksum_mask.simps) (simp add: ReadByte_def)

lemma checksum_mask_resync:
  "b \<noteq> SyncChar2 \<Longrightarrow> checksum_mask (SyncChar1 # b # r) = False # False # checksum_mask r"
  by (subst checksum_mask.simps) (simp add: ReadByte_def)

lemma checksum_mask_short_header:
  "length r < 6 \<Longrightarrow>
   checksum_mask (SyncChar1 # SyncChar2 # r) = False # False # replicate (length r) False"
  by (subst checksum_mask.simps) (simp add: ReadByte_def ReadFull_def)

lemma checksum_mask_header:
  "checksum_mask (SyncChar1 # SyncChar2 # c1 # c2 # i1 # i2 # l1 # l2 # r) =
     False # False # True # True # False # False # False # False #
     (if LittleEndian_Uint16 [l1, l2] < 8 \<or> LittleEndian_Uint16 [l1, l2] > 8192
      then checksum_mask r
      else if length r < nat (uint (LittleEndian_Uint16 [l1, l2]) - 8)
      then replicate (length r) False
      else replicate (nat (uint (LittleEndian_Uint16 [l1, l2]) - 8)) False
           @ checksum_mask (drop (nat (uint (LittleEndian_Uint16 [l1, l2]) - 8)) r))"
proof -
  have rf: "ReadFull 6 (c1 # c2 # i1 # i2 # l1 # l2 # r)
      = Some (take 6 (c1 # c2 # i1 # i2 # l1 # l2 # r), r)"
    by (simp add: ReadFull_def)
  show ?thesis
    by (subst checksum_mask.simps)
       (simp only: ReadByte_def list.case option.case prod.case rf header_fields Let_def
          ReadFull_def if_True if_False not_not refl split: if_splits, simp)
qed

lemma replicate_two: "replicate 2 x = [x, x]"
  by (simp add: numeral_2_eq_2)

lemmas mask_eval =
  checksum_mask_Nil
  checksum_mask_skip [unfolded Sync_defs]
  checksum_mask_sync1_eof [unfolded Sync_defs]
  checksum_mask_resync [unfolded Sync_defs]
  checksum_mask_short_header [unfolded Sync_defs]
  checksum_mask_header [unfolded Sync_defs]

subsection \<open>Streams that agree off a mask\<close>

lemma agree_off_Cons:
  "agree_off (m # ms) (x # xs) ys \<Longrightarrow>
   \<exists>y ys'. ys = y # ys' \<and> (m \<or> x = y) \<and> agree_off ms xs ys'"
  by (cases ys) simp_all

lemma agree_off_Nil: "agree_off [] [] ys \<Longrightarrow> ys = []"
  by (cases ys) simp_all

lemma agree_off_all_False:
  "agree_off (replicate (length xs) False) xs ys \<Longrightarrow> ys = xs"
proof (induction xs arbitrary: ys)
  case Nil
  then show ?case by (simp add: agree_off_Nil)
next
  case (Cons x xs)
  then show ?case
    by (cases ys) simp_all
qed

lemma agree_off_prefix:
  "n \<le> length xs \<Longrightarrow> agree_off (replicate n False @ ms) xs ys \<Longrightarrow>
   n \<le> length ys \<and> take n ys = take n xs \<and> agree_off ms (drop n xs) (drop n ys)"
proof (induction n arbitrary: xs ys)
  case 0
  then show ?case by simp
next
  case (Suc n)
  then obtain x xs' where xs: "xs = x # xs'"
    by (cases xs) simp_all
  with Suc.prems obtain y ys' where ys: "ys = y # ys'" "x = y" "agree_off (replicate n False @ ms) xs' ys'"
    by (cases ys) simp_all
  with Suc.IH [of xs' ys'] Suc.prems(1) xs show ?case
    by simp
qed

lemma agree_off_length:
  "agree_off ms xs ys \<Longrightarrow> length ms = length xs \<and> length ys = length xs"
  by (induction ms xs ys rule: agree_off.induct) simp_all

lemma agree_off_nth:
  "agree_off ms xs ys \<Longrightarrow> i < length xs \<Longrightarrow> \<not> ms ! i \<Longrightarrow> ys ! i = xs ! i"
proof (induction ms xs ys arbitrary: i rule: agree_off.induct)
  case (2 m ms x xs y ys)
  then show ?case
    by (cases i) auto
qed simp_all

lemma agree_off_refl: "length ms = length xs \<Longrightarrow> agree_off ms xs xs"
proof (induction ms arbitrary: xs)
  case Nil
  then show ?case by simp
next
  case (Cons m ms)
  then show ?case by (cases xs) simp_all
qed

lemma length_checksum_mask: "length (checksum_mask xs) = length xs"
  by (induction xs rule: scan_induct)
     (simp_all add: checksum_mask_Nil checksum_mask_skip checksum_mask_sync1_eof
        checksum_mask_resync checksum_mask_short_header checksum_mask_header)

subsection \<open>The scan of two streams that agree off the checksum bytes\<close>

lemma handleStream_frames_agree_off:
  "agree_off (checksum_mask xs) xs ys \<Longrightarrow>
   handleStream_frames ys = handleStream_frames xs \<and> checksum_mask ys = checksum_mask xs"
proof (induction xs arbitrary: ys rule: scan_induct)
  case eof
  then have "ys = []"
    by (simp add: checksum_mask_Nil agree_off_Nil)
  then show ?case by simp
next
  case (skip b r)
  from skip.prems skip.hyps obtain ys' where "ys = b # ys'" "agree_off (checksum_mask r) r ys'"
    by (auto simp: checksum_mask_skip dest!: agree_off_Cons)
  with skip.IH [of ys'] skip.hyps show ?case
    by (simp add: handleStream_frames_skip checksum_mask_skip)
next
  case sync1_eof
  then have "ys = [SyncChar1]"
    by (auto simp: checksum_mask_sync1_eof dest!: agree_off_Cons agree_off_Nil)
  then show ?case by simp
next
  case (resync b r)
  from resync.prems resync.hyps obtain ys' where
    "ys = SyncChar1 # b # ys'" "agree_off (checksum_mask r) r ys'"
    by (auto simp: checksum_mask_resync dest!: agree_off_Cons)
  with resync.IH [of ys'] resync.hyps show ?case
    by (simp add: handleStream_frames_resync checksum_mask_resync)
next
  case (short_header r)
  from short_header.prems short_header.hyps have "ys = SyncChar1 # SyncChar2 # r"
    by (auto simp: checksum_mask_short_header dest!: agree_off_Cons agree_off_all_False)
  then show ?case by simp
next
  case (bad_length c1 c2 i1 i2 l1 l2 r)
  from bad_length.prems bad_length.hyps obtain d1 d2 ys' where
    ys: "ys = SyncChar1 # SyncChar2 # d1 # d2 # i1 # i2 # l1 # l2 # ys'"
    and ag: "agree_off (checksum_mask r) r ys'"
    by (auto simp: checksum_mask_header dest!: agree_off_Cons)
  from bad_length.IH [OF ag] bad_length.hyps ys show ?case
    by (simp add: handleStream_frames_header checksum_mask_header)
next
  case (short_payload c1 c2 i1 i2 l1 l2 r)
  from short_payload.prems short_payload.hyps obtain d1 d2 ys' where
    ys: "ys = SyncChar1 # SyncChar2 # d1 # d2 # i1 # i2 # l1 # l2 # ys'"
    and ag: "agree_off (replicate (length r) False) r ys'"
    by (auto simp: checksum_mask_header dest!: agree_off_Cons)
  from ag have "ys' = r"
    by (rule agree_off_all_False)
  with ys short_payload.hyps show ?case
    by (simp add: handleStream_frames_header checksum_mask_header)
next
  case (frame c1 c2 i1 i2 l1 l2 r)
  let ?n = "nat (uint (LittleEndian_Uint16 [l1, l2]) - 8)"
  from frame.hyps have nlen: "\<not> length r < ?n"
    by simp
  from frame.prems frame.hyps(1) nlen obtain d1 d2 ys' where
    ys: "ys = SyncChar1 # SyncChar2 # d1 # d2 # i1 # i2 # l1 # l2 # ys'"
    and ag: "agree_off (replicate ?n False @ checksum_mask (drop ?n r)) r ys'"
    by (auto simp: checksum_mask_header dest!: agree_off_Cons)
  from agree_off_prefix [OF frame.hyps(2) ag]
  have len: "?n \<le> length ys'" and pre: "take ?n ys' = take ?n r"
    and rest: "agree_off (checksum_mask (drop ?n r)) (drop ?n r) (drop ?n ys')"
    by simp_all
  from frame.IH [OF rest]
  have "handleStream_frames (drop ?n ys') = handleStream_frames (drop ?n r)"
    and "checksum_mask (drop ?n ys') = checksum_mask (drop ?n r)"
    by simp_all
  with ys len pre frame.hyps nlen show ?case
    by (simp add: handleStream_frames_header checksum_mask_header)
qed

text \<open>What \<open>agree_off\<close> says, position by position.\<close>

lemma agree_off_iff:
  "agree_off ms xs ys \<longleftrightarrow>
     length ms = length xs \<and> length ys = length xs
     \<and> (\<forall>i < length xs. \<not> ms ! i \<longrightarrow> ys ! i = xs ! i)"
proof (induction ms xs ys rule: agree_off.induct)
  case (2 m ms x xs y ys)
  have "(\<forall>i < Suc (length xs). \<not> (m # ms) ! i \<longrightarrow> (y # ys) ! i = (x # xs) ! i)
      \<longleftrightarrow> (m \<or> x = y) \<and> (\<forall>i < length xs. \<not> ms ! i \<longrightarrow> ys ! i = xs ! i)"
    by (auto simp: less_Suc_eq_0_disj)
  with 2 show ?case
    by auto
qed auto

text \<open>
  Claim C8: the two checksum bytes of a header never influence the scanner or the decoder.
  Two streams of the same length that hold the same byte at every position but the
  checksum positions of the headers the scanner reads yield the same frames and the same
  samples, and the scanner finds the checksum bytes of both at the same positions. In
  particular the two bytes behind a marker can be replaced by any other two.
\<close>

theorem C8_checksum_noninterference:
  "(agree_off (checksum_mask xs) xs ys \<longrightarrow>
      handleStream_frames ys = handleStream_frames xs
      \<and> handleStream ys st = handleStream xs st
      \<and> checksum_mask ys = checksum_mask xs)
   \<and> handleStream_frames (SyncChar1 # SyncChar2 # cka # ckb # r)
       = handleStream_frames (SyncChar1 # SyncChar2 # cka' # ckb' # r)"
proof (intro conjI impI)
  assume a: "agree_off (checksum_mask xs) xs ys"
  from handleStream_frames_agree_off [OF a]
  show "handleStream_frames ys = handleStream_frames xs"
    and "checksum_mask ys = checksum_mask xs"
    and "handleStream ys st = handleStream xs st"
    by (simp_all add: handleStream_def)
next
  show "handleStream_frames (SyncChar1 # SyncChar2 # cka # ckb # r)
      = handleStream_frames (SyncChar1 # SyncChar2 # cka' # ckb' # r)"
  proof (cases "length r < 4")
    case True
    then show ?thesis
      by (simp add: handleStream_frames_short_header)
  next
    case False
    then obtain i1 i2 l1 l2 r' where "r = i1 # i2 # l1 # l2 # r'"
      by (auto simp: not_less numeral_eq_Suc Suc_le_length_iff)
    then show ?thesis
      by (simp only: handleStream_frames_header)
  qed
qed

theorem C8_checksum_noninterference_witness:
  "agree_off (checksum_mask [0x24, 0x40, 0xAA, 0xBB, 0xAE, 0x4F, 0x0A, 0x00, 1, 2, 9])
     [0x24, 0x40, 0xAA, 0xBB, 0xAE, 0x4F, 0x0A, 0x00, 1, 2, 9]
     [0x24, 0x40, 0x11, 0x22, 0xAE, 0x4F, 0x0A, 0x00, 1, 2, 9]
   \<and> handleStream_frames [0x24, 0x40, 0x11, 0x22, 0xAE, 0x4F, 0x0A, 0x00, 1, 2, 9]
       = handleStream_frames [0x24, 0x40, 0xAA, 0xBB, 0xAE, 0x4F, 0x0A, 0x00, 1, 2, 9]"
  using C8_checksum_noninterference
    [where xs = "[0x24, 0x40, 0xAA, 0xBB, 0xAE, 0x4F, 0x0A, 0x00, 1, 2, 9]"
       and ys = "[0x24, 0x40, 0x11, 0x22, 0xAE, 0x4F, 0x0A, 0x00, 1, 2, 9]"]
  by (simp add: LittleEndian_Uint16_def mask_eval replicate_two)

section \<open>Claims about the station supervisor\<close>

text \<open>
  Claim C9: when every connect attempt of a station fails, the supervisor never gets
  connected. Each iteration of its loop sets the connectivity gauge to 0, dials, logs the
  failure and sleeps 10 seconds; the gauge is never set to 1, no stream is ever handed to
  \<^verbatim>\<open>handleStream\<close>, and the loop does not end: whatever the number \<open>n\<close>, the first \<open>n\<close>
  iterations are \<open>n\<close> such rounds, each followed by the next.
\<close>

theorem C9_never_connected:
  assumes "\<forall>k. dial k = None"
  shows "monitorStation dial s k n =
           concat (replicate n
             [SetGauge (Sample receiverConnected (Name s) 0), DialTimeout 5,
              Printf ''Connection failed. Retrying in 10s...'', Sleep 10])
         \<and> SetGauge (Sample receiverConnected (Name s) 1) \<notin> set (monitorStation dial s k n)
         \<and> (\<forall>conn. HandleStream conn \<notin> set (monitorStation dial s k n))
         \<and> length (monitorStation dial s k n) = 4 * n"
proof -
  have shape: "monitorStation dial s k n =
      concat (replicate n
        [SetGauge (Sample receiverConnected (Name s) 0), DialTimeout 5,
         Printf ''Connection failed. Retrying in 10s...'', Sleep 10])"
    using assms by (induction n arbitrary: k) simp_all
  have no1: "SetGauge (Sample receiverConnected (Name s) 1) \<notin> set (monitorStation dial s k n)"
    unfolding shape by (induction n) simp_all
  have nohs: "HandleStream conn \<notin> set (monitorStation dial s k n)" for conn
    unfolding shape by (induction n) simp_all
  have len: "length (monitorStation dial s k n) = 4 * n"
    unfolding shape by (induction n) simp_all
  from shape no1 nohs len show ?thesis
    by blast
qed

theorem C9_never_connected_witness:
  "monitorStation (\<lambda>k. None) \<lparr>Name = ''rx'', Host = ''10.0.0.1'', Port = 28000\<rparr> 0 (Suc (Suc 0)) =
     [SetGauge (Sample receiverConnected ''rx'' 0), DialTimeout 5,
      Printf ''Connection failed. Retrying in 10s...'', Sleep 10,
      SetGauge (Sample receiverConnected ''rx'' 0), DialTimeout 5,
      Printf ''Connection failed. Retrying in 10s...'', Sleep 10]"
  using C9_never_connected
    [where dial = "\<lambda>k. None" and s = "\<lparr>Name = ''rx'', Host = ''10.0.0.1'', Port = 28000\<rparr>"
       and k = 0 and n = "Suc (Suc 0)"]
  by simp

end
